theory Spec2Isabelle
  imports Main "HOL-Library.Sublist"
begin

section \<open>Python strings\<close>

text \<open>
  A Python \<open>str\<close> is modelled as a \<open>string\<close>: a list of code points below 256.
  The character classes below are Python's own (\<open>str.isspace\<close>, and the classes
  \<open>\s\<close>, \<open>\d\<close>, \<open>\w\<close> of the \<open>re\<close> module for \<open>str\<close> patterns) restricted to that range.
\<close>

definition code :: "char \<Rightarrow> nat" where
  "code c = of_char c"

definition is_space :: "char \<Rightarrow> bool" where
  "is_space c = ((9 \<le> code c \<and> code c \<le> 13) \<or> (28 \<le> code c \<and> code c \<le> 32)
                 \<or> code c = 133 \<or> code c = 160)"

definition is_digit :: "char \<Rightarrow> bool" where
  "is_digit c = (48 \<le> code c \<and> code c \<le> 57)"

definition is_ident_start :: "char \<Rightarrow> bool" where
  \<comment> \<open>the class \<open>[a-zA-Z_]\<close>\<close>
  "is_ident_start c = ((97 \<le> code c \<and> code c \<le> 122) \<or> (65 \<le> code c \<and> code c \<le> 90)
                       \<or> code c = 95)"

definition is_ident_char :: "char \<Rightarrow> bool" where
  \<comment> \<open>the class \<open>[a-zA-Z0-9_]\<close>\<close>
  "is_ident_char c = (is_ident_start c \<or> is_digit c)"

definition is_word :: "char \<Rightarrow> bool" where
  \<comment> \<open>\<open>\w\<close>: alphanumeric code points and the underscore\<close>
  "is_word c = (is_ident_char c \<or> code c = 170 \<or> code c = 178 \<or> code c = 179
                \<or> code c = 181 \<or> code c = 185 \<or> code c = 186
                \<or> (188 \<le> code c \<and> code c \<le> 190)
                \<or> (192 \<le> code c \<and> code c \<le> 214) \<or> (216 \<le> code c \<and> code c \<le> 246)
                \<or> 248 \<le> code c)"

definition newline :: char where
  "newline = CHR 0x0A"

definition not_newline :: "char \<Rightarrow> bool" where
  \<comment> \<open>the class \<open>.\<close> without the DOTALL flag\<close>
  "not_newline c = (c \<noteq> newline)"

definition any_char :: "char \<Rightarrow> bool" where
  \<comment> \<open>the class \<open>.\<close> under the DOTALL flag\<close>
  "any_char c = True"

definition not_colon :: "char \<Rightarrow> bool" where
  \<comment> \<open>the class \<open>[^:]\<close>\<close>
  "not_colon c = (c \<noteq> CHR '':'')"

definition not_backtick :: "char \<Rightarrow> bool" where
  \<comment> \<open>the class \<open>[^`]\<close>\<close>
  "not_backtick c = (c \<noteq> CHR 0x60)"

definition ansi_param :: "char \<Rightarrow> bool" where
  \<comment> \<open>the class \<open>[0-9;]\<close>\<close>
  "ansi_param c = (is_digit c \<or> c = CHR '';'')"

fun split_acc :: "char \<Rightarrow> string \<Rightarrow> string \<Rightarrow> string list" where
  \<comment> \<open>the second argument is the piece being read, reversed\<close>
  "split_acc sep cur [] = [rev cur]"
| "split_acc sep cur (c # cs) =
     (if c = sep then rev cur # split_acc sep [] cs else split_acc sep (c # cur) cs)"

definition split_on :: "char \<Rightarrow> string \<Rightarrow> string list" where
  \<comment> \<open>\<open>s.split(sep)\<close> for a separator of one character\<close>
  "split_on sep s = split_acc sep [] s"

definition strip :: "string \<Rightarrow> string" where
  "strip s = rev (dropWhile is_space (rev (dropWhile is_space s)))"

definition rstrip :: "string \<Rightarrow> string" where
  "rstrip s = rev (dropWhile is_space (rev s))"

definition startswith :: "string \<Rightarrow> string \<Rightarrow> bool" where
  "startswith s p = prefix p s"

definition endswith :: "string \<Rightarrow> string \<Rightarrow> bool" where
  "endswith s p = suffix p s"

fun py_in :: "string \<Rightarrow> string \<Rightarrow> bool" where
  \<comment> \<open>\<open>py_in a b\<close> is Python's \<open>a in b\<close>\<close>
  "py_in a [] = (a = [])"
| "py_in a (c # cs) = (prefix a (c # cs) \<or> py_in a cs)"

definition count_nl :: "string \<Rightarrow> nat" where
  \<comment> \<open>\<open>s.count('\n')\<close>\<close>
  "count_nl s = length (filter (\<lambda>c. c = newline) s)"

fun join :: "string \<Rightarrow> string list \<Rightarrow> string" where
  "join sep [] = []"
| "join sep [x] = x"
| "join sep (x # y # ys) = x @ sep @ join sep (y # ys)"

definition lower_char :: "char \<Rightarrow> char" where
  "lower_char c =
     (if (65 \<le> code c \<and> code c \<le> 90) \<or> (192 \<le> code c \<and> code c \<le> 222 \<and> code c \<noteq> 215)
      then char_of (code c + 32) else c)"

definition lower :: "string \<Rightarrow> string" where
  "lower s = map lower_char s"

fun digits_of :: "nat \<Rightarrow> nat \<Rightarrow> string" where
  \<comment> \<open>the decimal digits of a natural number; the first argument bounds their number\<close>
  "digits_of 0 n = []"
| "digits_of (Suc k) n =
     (if n < 10 then [char_of (48 + n)]
      else digits_of k (n div 10) @ [char_of (48 + n mod 10)])"

definition str_int :: "int \<Rightarrow> string" where
  \<comment> \<open>\<open>str\<close> of an \<open>int\<close>, as an f-string prints it\<close>
  "str_int i = (if i < 0 then CHR ''-'' # digits_of (Suc (nat (- i))) (nat (- i))
                else digits_of (Suc (nat i)) (nat i))"

fun int_of_digits :: "nat \<Rightarrow> string \<Rightarrow> nat" where
  \<comment> \<open>\<open>int\<close> of a string of the digits 0 to 9, as \<open>\d+\<close> captures it\<close>
  "int_of_digits acc [] = acc"
| "int_of_digits acc (c # cs) = int_of_digits (acc * 10 + (code c - 48)) cs"

fun digits_underscores :: "bool \<Rightarrow> nat \<Rightarrow> string \<Rightarrow> nat option" where
  \<comment> \<open>digits with single underscores between them; the flag says the last character was a digit\<close>
  "digits_underscores prev_digit acc [] = (if prev_digit then Some acc else None)"
| "digits_underscores prev_digit acc (c # cs) =
     (if is_digit c then digits_underscores True (acc * 10 + (code c - 48)) cs
      else if c = CHR ''_'' \<and> prev_digit then digits_underscores False acc cs
      else None)"

definition py_int :: "string \<Rightarrow> int option" where
  \<comment> \<open>\<open>int(s)\<close>; \<open>None\<close> is the \<open>ValueError\<close>\<close>
  "py_int s =
     (case strip s of
        [] \<Rightarrow> None
      | c # cs \<Rightarrow>
          if c = CHR ''+'' then map_option int (digits_underscores False 0 cs)
          else if c = CHR ''-'' then map_option (\<lambda>n. - int n) (digits_underscores False 0 cs)
          else map_option int (digits_underscores False 0 (c # cs)))"

section \<open>Regular expressions\<close>

text \<open>
  The part of Python's \<open>re\<close> that the patterns of the program use. A pattern is matched
  by backtracking; \<open>run r st\<close> lists the outcomes of matching \<open>r\<close> from the state \<open>st\<close>
  in the order in which backtracking tries them, so the head of the list is the match
  that \<open>re\<close> reports. A state holds the character before the position (for \<open>\b\<close>), the
  text from the position on, and the groups captured so far, the latest first.
\<close>

datatype rx =
    Lit string
  | Cls "char \<Rightarrow> bool"
  | Seq rx rx
  | Alt rx rx
  | Opt rx
  | Star rx
  | Plus rx
  | LazyStar rx
  | Grp nat rx
  | NotAhead rx
  | WordB
  | Eol

type_synonym caps = "(nat \<times> string) list"
type_synonym mstate = "char option \<times> string \<times> caps"

definition rest :: "mstate \<Rightarrow> string" where
  "rest st = fst (snd st)"

fun lit :: "string \<Rightarrow> mstate \<Rightarrow> mstate list" where
  "lit [] st = [st]"
| "lit (a # w) (p, [], c) = []"
| "lit (a # w) (p, x # s, c) = (if a = x then lit w (Some x, s, c) else [])"

fun greedy :: "(mstate \<Rightarrow> mstate list) \<Rightarrow> nat \<Rightarrow> mstate \<Rightarrow> mstate list" where
  \<comment> \<open>as many rounds as possible first; a round must consume a character\<close>
  "greedy f 0 st = [st]"
| "greedy f (Suc n) st =
     concat (map (\<lambda>st'. if length (rest st') < length (rest st) then greedy f n st' else [])
                 (f st)) @ [st]"

fun lazy :: "(mstate \<Rightarrow> mstate list) \<Rightarrow> nat \<Rightarrow> mstate \<Rightarrow> mstate list" where
  \<comment> \<open>as few rounds as possible first\<close>
  "lazy f 0 st = [st]"
| "lazy f (Suc n) st =
     st # concat (map (\<lambda>st'. if length (rest st') < length (rest st) then lazy f n st' else [])
                      (f st))"

fun is_word_opt :: "char option \<Rightarrow> bool" where
  "is_word_opt None = False"
| "is_word_opt (Some c) = is_word c"

fun next_char :: "string \<Rightarrow> char option" where
  "next_char [] = None"
| "next_char (x # s) = Some x"

primrec run :: "rx \<Rightarrow> mstate \<Rightarrow> mstate list" where
  "run (Lit w) st = lit w st"
| "run (Cls P) st =
     (case rest st of [] \<Rightarrow> [] | x # s \<Rightarrow> if P x then [(Some x, s, snd (snd st))] else [])"
| "run (Seq a b) st = concat (map (run b) (run a st))"
| "run (Alt a b) st = run a st @ run b st"
| "run (Opt a) st = run a st @ [st]"
| "run (Star a) st = greedy (run a) (length (rest st)) st"
| "run (Plus a) st = concat (map (\<lambda>st'. greedy (run a) (length (rest st')) st') (run a st))"
| "run (LazyStar a) st = lazy (run a) (length (rest st)) st"
| "run (Grp k a) st =
     map (\<lambda>st'. (fst st', rest st',
                 (k, take (length (rest st) - length (rest st')) (rest st)) # snd (snd st')))
         (run a st)"
| "run (NotAhead a) st = (if run a st = [] then [st] else [])"
| "run WordB st = (if is_word_opt (fst st) \<noteq> is_word_opt (next_char (rest st)) then [st] else [])"
| "run Eol st = (case rest st of [] \<Rightarrow> [st] | x # s \<Rightarrow> if x = newline then [st] else [])"

fun seqs :: "rx list \<Rightarrow> rx" where
  "seqs [] = Lit []"
| "seqs [r] = r"
| "seqs (r # rs) = Seq r (seqs rs)"

fun alts :: "rx list \<Rightarrow> rx" where
  "alts [] = NotAhead (Lit [])"
| "alts [r] = r"
| "alts (r # rs) = Alt r (alts rs)"

text \<open>
  A match is its start, its end and its groups. \<open>match_at\<close> matches at one position,
  \<open>search_at\<close> at the first position from \<open>pos\<close> on where the pattern matches.
\<close>

type_synonym rmatch = "nat \<times> nat \<times> caps"

definition match_at :: "rx \<Rightarrow> char option \<Rightarrow> string \<Rightarrow> (nat \<times> caps) option" where
  "match_at r p s =
     (case run r (p, s, []) of
        [] \<Rightarrow> None
      | st # _ \<Rightarrow> Some (length s - length (rest st), snd (snd st)))"

fun search_at :: "rx \<Rightarrow> char option \<Rightarrow> string \<Rightarrow> nat \<Rightarrow> rmatch option" where
  "search_at r p [] pos =
     (case match_at r p [] of None \<Rightarrow> None | Some (n, c) \<Rightarrow> Some (pos, pos + n, c))"
| "search_at r p (x # s) pos =
     (case match_at r p (x # s) of
        None \<Rightarrow> search_at r (Some x) s (Suc pos)
      | Some (n, c) \<Rightarrow> Some (pos, pos + n, c))"

definition search :: "rx \<Rightarrow> string \<Rightarrow> rmatch option" where
  \<comment> \<open>\<open>pattern.search(s)\<close>\<close>
  "search r s = search_at r None s 0"

definition char_before :: "string \<Rightarrow> nat \<Rightarrow> char option" where
  "char_before s pos = (if pos = 0 \<or> length s < pos then None else Some (s ! (pos - 1)))"

definition search_from :: "rx \<Rightarrow> string \<Rightarrow> nat \<Rightarrow> rmatch option" where
  \<comment> \<open>\<open>pattern.search(s, pos)\<close>: \<open>\b\<close> still sees the character before \<open>pos\<close>\<close>
  "search_from r s pos = search_at r (char_before s pos) (drop pos s) pos"

definition matches :: "rx \<Rightarrow> string \<Rightarrow> bool" where
  \<comment> \<open>\<open>pattern.search(s)\<close> as a truth value\<close>
  "matches r s = (search r s \<noteq> None)"

definition group :: "caps \<Rightarrow> nat \<Rightarrow> string option" where
  \<comment> \<open>\<open>match.group(k)\<close>: the last text that group \<open>k\<close> captured, if it took part\<close>
  "group c k = map_of c k"

definition group_text :: "caps \<Rightarrow> nat \<Rightarrow> string" where
  \<comment> \<open>\<open>match.group(k)\<close> of a group that every match of its pattern captures\<close>
  "group_text c k = (case map_of c k of None \<Rightarrow> [] | Some g \<Rightarrow> g)"

text \<open>
  \<open>finditer\<close> and \<open>sub\<close> with an empty replacement walk the text once; \<open>skip\<close> counts
  the characters still covered by the last match, where no new match may start. The
  patterns of the program match no empty text.
\<close>

fun finditer_at :: "rx \<Rightarrow> char option \<Rightarrow> string \<Rightarrow> nat \<Rightarrow> nat \<Rightarrow> rmatch list" where
  "finditer_at r p [] pos skip = []"
| "finditer_at r p (x # s) pos skip =
     (if 0 < skip then finditer_at r (Some x) s (Suc pos) (skip - 1)
      else (case match_at r p (x # s) of
              None \<Rightarrow> finditer_at r (Some x) s (Suc pos) 0
            | Some (n, c) \<Rightarrow> (pos, pos + n, c) # finditer_at r (Some x) s (Suc pos) (n - 1)))"

definition finditer :: "rx \<Rightarrow> string \<Rightarrow> rmatch list" where
  "finditer r s = finditer_at r None s 0 0"

fun sub_at :: "rx \<Rightarrow> char option \<Rightarrow> string \<Rightarrow> nat \<Rightarrow> string" where
  "sub_at r p [] skip = []"
| "sub_at r p (x # s) skip =
     (if 0 < skip then sub_at r (Some x) s (skip - 1)
      else (case match_at r p (x # s) of
              None \<Rightarrow> x # sub_at r (Some x) s 0
            | Some (n, c) \<Rightarrow>
                if n = 0 then x # sub_at r (Some x) s 0 else sub_at r (Some x) s (n - 1)))"

definition sub_empty :: "rx \<Rightarrow> string \<Rightarrow> string" where
  \<comment> \<open>\<open>re.sub(pattern, '', s)\<close>\<close>
  "sub_empty r s = sub_at r None s 0"

section \<open>CompilationErrorParser\<close>

text \<open>The patterns of \<open>CompilationErrorParser.__init__\<close> in \<open>find_verus_functions_syn.py\<close>.\<close>

definition error_pattern :: rx where
  \<comment> \<open>\<open>error(?:\[E\d+\])?: (.+)\<close>\<close>
  "error_pattern =
     seqs [Lit ''error'', Opt (seqs [Lit ''[E'', Plus (Cls is_digit), Lit '']'']),
           Lit '': '', Grp 1 (Plus (Cls not_newline))]"

definition cargo_error_pattern :: rx where
  \<comment> \<open>\<open>error: could not compile `([^`]+)`\<close>\<close>
  "cargo_error_pattern =
     seqs [Lit ''error: could not compile '', Lit [CHR 0x60], Grp 1 (Plus (Cls not_backtick)),
           Lit [CHR 0x60]]"

definition warning_pattern :: rx where
  \<comment> \<open>\<open>warning: (.+)\<close>\<close>
  "warning_pattern = seqs [Lit ''warning: '', Grp 1 (Plus (Cls not_newline))]"

definition file_location_pattern :: rx where
  \<comment> \<open>\<open>-->\s+([^:]+):(\d+):(\d+)\<close>\<close>
  "file_location_pattern =
     seqs [Lit ''-->'', Plus (Cls is_space), Grp 1 (Plus (Cls not_colon)), Lit '':'',
           Grp 2 (Plus (Cls is_digit)), Lit '':'', Grp 3 (Plus (Cls is_digit))]"

definition process_error_pattern :: rx where
  \<comment> \<open>\<open>process didn't exit successfully: (.+)\<close>\<close>
  "process_error_pattern =
     seqs [Lit (''process didn'' @ [CHR 0x27] @ ''t exit successfully: ''),
           Grp 1 (Plus (Cls not_newline))]"

definition memory_error_pattern :: rx where
  \<comment> \<open>\<open>memory allocation of \d+ bytes failed\<close>\<close>
  "memory_error_pattern =
     seqs [Lit ''memory allocation of '', Plus (Cls is_digit), Lit '' bytes failed'']"

definition exit_status_pattern :: rx where
  \<comment> \<open>\<open>\(exit status: (\d+)\)\<close>\<close>
  "exit_status_pattern = seqs [Lit ''(exit status: '', Grp 1 (Plus (Cls is_digit)), Lit '')'']"

definition verus_command_exit_pattern :: rx where
  \<comment> \<open>\<open>Verus command completed with exit code: (\d+)\<close>\<close>
  "verus_command_exit_pattern =
     seqs [Lit ''Verus command completed with exit code: '', Grp 1 (Plus (Cls is_digit))]"

definition verification_results_pattern :: rx where
  \<comment> \<open>\<open>verification results::\s*(\d+)\s+verified,\s*(\d+)\s+errors?\<close>\<close>
  "verification_results_pattern =
     seqs [Lit ''verification results::'', Star (Cls is_space), Grp 1 (Plus (Cls is_digit)),
           Plus (Cls is_space), Lit ''verified,'', Star (Cls is_space),
           Grp 2 (Plus (Cls is_digit)), Plus (Cls is_space), Lit ''error'', Opt (Lit ''s'')]"

definition verification_error_patterns :: "rx list" where
  "verification_error_patterns =
     [Lit ''error: assertion failed'',
      Lit ''error: postcondition not satisfied'',
      Lit ''error: precondition not satisfied'',
      Lit ''error: loop invariant not preserved'',
      Lit ''error: loop invariant not satisfied on entry'',
      Lit ''error: assertion not satisfied'']"

text \<open>
  One record of \<open>errors\<close> or \<open>warnings\<close>: the dictionary with the keys \<open>message\<close>,
  \<open>file\<close> (here \<open>src_file\<close>), \<open>line\<close>, \<open>column\<close> and \<open>full_message\<close>.
\<close>

record diag =
  message :: string
  src_file :: "string option"
  line :: "int option"
  column :: "int option"
  full_message :: "string list"

text \<open>The variables of the loop of \<open>parse_compilation_output\<close>.\<close>

record pstate =
  errors :: "diag list"
  warnings :: "diag list"
  current_error :: "diag option"
  current_warning :: "diag option"

definition new_diag :: "string \<Rightarrow> string \<Rightarrow> diag" where
  \<comment> \<open>a record with the given message, no location, and the line as its only text\<close>
  "new_diag msg ln = \<lparr>message = msg, src_file = None, line = None, column = None, full_message = [ln]\<rparr>"

definition append_open :: "diag list \<Rightarrow> diag option \<Rightarrow> diag list" where
  \<comment> \<open>\<open>if current: records.append(current)\<close>\<close>
  "append_open ds cur = (case cur of None \<Rightarrow> ds | Some d \<Rightarrow> ds @ [d])"

definition is_verification_error :: "string \<Rightarrow> bool" where
  "is_verification_error ln = list_ex (\<lambda>pattern. matches pattern ln) verification_error_patterns"

definition is_error_continuation :: "string \<Rightarrow> bool" where
  "is_error_continuation ln =
     (startswith ln ''|'' \<or> startswith ln ''^'' \<or> startswith ln ''='' \<or>
      startswith ln ''Caused by:'' \<or> startswith ln ''(signal:'' \<or>
      startswith ln (''  process didn'' @ [CHR 0x27] @ ''t exit successfully:'') \<or>
      matches exit_status_pattern ln)"

definition continuation_note :: "string \<Rightarrow> string" where
  \<comment> \<open>what a continuation line adds to the message of the open error\<close>
  "continuation_note ln =
     (if startswith ln ''Caused by:'' then '' - '' @ strip ln
      else if py_in ''(signal:'' ln then '' - '' @ strip ln
      else (case search exit_status_pattern ln of
              Some (b, e, c) \<Rightarrow> '' (exit status: '' @ group_text c 1 @ '')''
            | None \<Rightarrow> []))"

definition is_warning_continuation :: "string \<Rightarrow> bool" where
  "is_warning_continuation ln =
     (startswith ln ''|'' \<or> startswith ln ''^'' \<or> startswith ln ''='')"

definition close_on_blank :: "pstate \<Rightarrow> pstate" where
  \<comment> \<open>the branch \<open>elif line == ""\<close>\<close>
  "close_on_blank st =
     (let st1 = (case current_error st of
                   Some e \<Rightarrow> if 0 < length (full_message e)
                             then st\<lparr>errors := errors st @ [e], current_error := None\<rparr> else st
                 | None \<Rightarrow> st)
      in (case current_warning st1 of
            Some w \<Rightarrow> if 0 < length (full_message w)
                      then st1\<lparr>warnings := warnings st1 @ [w], current_warning := None\<rparr> else st1
          | None \<Rightarrow> st1))"

definition continuation_line :: "pstate \<Rightarrow> string \<Rightarrow> pstate" where
  \<comment> \<open>the last \<open>if\<close>/\<open>elif\<close> chain of the loop body\<close>
  "continuation_line st ln =
     (if current_error st \<noteq> None \<and> is_error_continuation ln then
        (case current_error st of
           Some e \<Rightarrow> st\<lparr>current_error :=
                         Some (e\<lparr>full_message := full_message e @ [ln],
                                 message := message e @ continuation_note ln\<rparr>)\<rparr>
         | None \<Rightarrow> st)
      else if current_warning st \<noteq> None \<and> is_warning_continuation ln then
        (case current_warning st of
           Some w \<Rightarrow> st\<lparr>current_warning := Some (w\<lparr>full_message := full_message w @ [ln]\<rparr>)\<rparr>
         | None \<Rightarrow> st)
      else if ln = [] then close_on_blank st
      else st)"

definition location_line :: "pstate \<Rightarrow> string \<Rightarrow> caps \<Rightarrow> pstate" where
  \<comment> \<open>a line that \<open>file_location_pattern\<close> matches\<close>
  "location_line st ln c =
     (let file_path = group_text c 1;
          line_num = int (int_of_digits 0 (group_text c 2));
          col = int (int_of_digits 0 (group_text c 3))
      in (case current_error st of
            Some e \<Rightarrow> st\<lparr>current_error :=
                          Some (e\<lparr>src_file := Some file_path, line := Some line_num,
                                  column := Some col, full_message := full_message e @ [ln]\<rparr>)\<rparr>
          | None \<Rightarrow>
              (case current_warning st of
                 Some w \<Rightarrow> st\<lparr>current_warning :=
                               Some (w\<lparr>src_file := Some file_path, line := Some line_num,
                                       column := Some col, full_message := full_message w @ [ln]\<rparr>)\<rparr>
               | None \<Rightarrow> st)))"

definition open_error :: "pstate \<Rightarrow> string \<Rightarrow> string \<Rightarrow> pstate" where
  \<comment> \<open>\<open>if current_error: errors.append(current_error)\<close>, then a new open error\<close>
  "open_error st msg ln =
     st\<lparr>errors := append_open (errors st) (current_error st),
        current_error := Some (new_diag msg ln)\<rparr>"

definition extend_error :: "pstate \<Rightarrow> string \<Rightarrow> string \<Rightarrow> string \<Rightarrow> pstate" where
  \<comment> \<open>add the line to the open error and a note to its message; without an open error, open one\<close>
  "extend_error st note msg ln =
     (case current_error st of
        Some e \<Rightarrow> st\<lparr>current_error :=
                      Some (e\<lparr>full_message := full_message e @ [ln], message := message e @ note\<rparr>)\<rparr>
      | None \<Rightarrow> st\<lparr>current_error := Some (new_diag msg ln)\<rparr>)"

definition memory_line :: "pstate \<Rightarrow> string \<Rightarrow> pstate" where
  "memory_line st ln =
     (case current_error st of
        Some e \<Rightarrow> st\<lparr>current_error :=
                      Some (e\<lparr>full_message := full_message e @ [ln],
                              message := message e @ '' - '' @ ln\<rparr>)\<rparr>
      | None \<Rightarrow> st\<lparr>errors := errors st @ [new_diag ln ln]\<rparr>)"

definition parse_line :: "bool \<Rightarrow> pstate \<Rightarrow> string \<Rightarrow> pstate" where
  \<comment> \<open>the body of the second loop, for one element of \<open>lines\<close>\<close>
  "parse_line has_verification_results st raw =
     (let ln = strip raw in
      if matches verification_results_pattern ln then st
      else (case search cargo_error_pattern ln of
        Some (b, e, c) \<Rightarrow>
          if has_verification_results then st
          else open_error st (''Compilation failed for crate: '' @ group_text c 1) ln
      | None \<Rightarrow>
      if matches memory_error_pattern ln then memory_line st ln
      else (case search verus_command_exit_pattern ln of
        Some (b, e, c) \<Rightarrow>
          (let exit_code = str_int (int (int_of_digits 0 (group_text c 1)))
           in extend_error st ('' (exit code: '' @ exit_code @ '')'')
                (''Verus command failed with exit code '' @ exit_code) ln)
      | None \<Rightarrow>
      (case search process_error_pattern ln of
        Some (b, e, c) \<Rightarrow>
          extend_error st ('' - '' @ group_text c 1)
            (''Process execution failed: '' @ group_text c 1) ln
      | None \<Rightarrow>
      (case search error_pattern ln of
        Some (b, e, c) \<Rightarrow>
          if is_verification_error ln then st
          else open_error st (strip (group_text c 1)) ln
      | None \<Rightarrow>
      (case search warning_pattern ln of
        Some (b, e, c) \<Rightarrow>
          st\<lparr>warnings := append_open (warnings st) (current_warning st),
             current_warning := Some (new_diag (strip (group_text c 1)) ln)\<rparr>
      | None \<Rightarrow>
      (case search file_location_pattern ln of
        Some (b, e, c) \<Rightarrow> location_line st ln c
      | None \<Rightarrow> continuation_line st ln)))))))"

definition initial :: pstate where
  "initial = \<lparr>errors = [], warnings = [], current_error = None, current_warning = None\<rparr>"

definition finish :: "pstate \<Rightarrow> diag list \<times> diag list" where
  \<comment> \<open>after the loop: the records still open are appended\<close>
  "finish st = (append_open (errors st) (current_error st),
                append_open (warnings st) (current_warning st))"

definition parse_lines :: "bool \<Rightarrow> string list \<Rightarrow> diag list \<times> diag list" where
  "parse_lines has_verification_results lines =
     finish (foldl (parse_line has_verification_results) initial lines)"

definition first_pass :: "string list \<Rightarrow> bool" where
  \<comment> \<open>the first loop: is there a line with the summary of the verification results\<close>
  "first_pass lines = list_ex (\<lambda>l. matches verification_results_pattern (strip l)) lines"

definition parse_compilation_output :: "string \<Rightarrow> diag list \<times> diag list" where
  "parse_compilation_output output_content =
     (let lines = split_on newline output_content
      in parse_lines (first_pass lines) lines)"

definition has_verification_results :: "string \<Rightarrow> bool" where
  \<comment> \<open>the method of that name: a search in the whole text\<close>
  "has_verification_results output_content = matches verification_results_pattern output_content"

section \<open>VerificationParser\<close>

definition vp_error_pattern :: rx where
  \<comment> \<open>\<open>self.error_pattern\<close> of \<open>VerificationParser\<close>: \<open>-->\s+([^:]+):(\d+):\d+\<close>\<close>
  "vp_error_pattern =
     seqs [Lit ''-->'', Plus (Cls is_space), Grp 1 (Plus (Cls not_colon)), Lit '':'',
           Grp 2 (Plus (Cls is_digit)), Lit '':'', Plus (Cls is_digit)]"

definition ansi_pattern :: rx where
  \<comment> \<open>\<open>\x1b\[[0-9;]*m\<close>\<close>
  "ansi_pattern = seqs [Lit [CHR 0x1B, CHR ''[''], Star (Cls ansi_param), Lit ''m'']"

definition verification_error_types :: "string list" where
  "verification_error_types =
     [''assertion failed'',
      ''postcondition not satisfied'',
      ''precondition not satisfied'',
      ''loop invariant not preserved'',
      ''loop invariant not satisfied on entry'',
      ''assertion not satisfied'']"

text \<open>One element of the result of \<open>parse_verification_failures\<close>.\<close>

record failure =
  error_type :: string
  failure_file :: "string option"
  failure_line :: "int option"
  failure_column :: "int option"
  failure_message :: string
  assertion_details :: "string list"
  full_error_text :: string

text \<open>
  The variables of the inner loop over \<open>j\<close>; \<open>location_found_at\<close> is \<open>None\<close> where the
  source holds \<open>-1\<close>.
\<close>

record wstate =
  file_path_w :: "string option"
  line_number_w :: "int option"
  column_w :: "int option"
  full_error_lines :: "string list"
  location_found_at :: "nat option"

definition initial_window :: wstate where
  "initial_window = \<lparr>file_path_w = None, line_number_w = None, column_w = None,
                      full_error_lines = [], location_found_at = None\<rparr>"

definition parse_column :: "string \<Rightarrow> int option \<Rightarrow> int option" where
  \<comment> \<open>the \<open>try\<close> block: the text after the last colon, when \<open>int\<close> accepts it\<close>
  "parse_column current_line col =
     (let parts = split_on CHR '':'' current_line
      in if 3 \<le> length parts
         then (case py_int (last parts) of Some n \<Rightarrow> Some n | None \<Rightarrow> col)
         else col)"

definition record_location :: "wstate \<Rightarrow> nat \<Rightarrow> string \<Rightarrow> wstate" where
  "record_location w j current_line =
     (case search vp_error_pattern current_line of
        Some (b, e, c) \<Rightarrow>
          if location_found_at w = None
          then w\<lparr>file_path_w := Some (group_text c 1),
                 line_number_w := Some (int (int_of_digits 0 (group_text c 2))),
                 location_found_at := Some j,
                 column_w := parse_column current_line (column_w w)\<rparr>
          else w
      | None \<Rightarrow> w)"

definition starts_section :: "string \<Rightarrow> bool" where
  "starts_section next_next_line =
     (startswith next_next_line ''error:'' \<or> startswith next_next_line ''verification results''
      \<or> startswith next_next_line ''note:'')"

definition window_ends :: "string list \<Rightarrow> wstate \<Rightarrow> nat \<Rightarrow> bool" where
  \<comment> \<open>the condition of the \<open>break\<close>\<close>
  "window_ends lines w j =
     (case location_found_at w of
        None \<Rightarrow> False
      | Some at \<Rightarrow>
          at + 1 < j \<and> strip (lines ! j) = [] \<and> j + 1 < length lines
          \<and> starts_section (strip (lines ! (j + 1))))"

fun window_loop :: "string list \<Rightarrow> nat \<Rightarrow> nat \<Rightarrow> wstate \<Rightarrow> wstate" where
  \<comment> \<open>\<open>for j in range(i, min(i + 15, len(lines)))\<close>; the third argument counts the rounds left\<close>
  "window_loop lines j 0 w = w"
| "window_loop lines j (Suc n) w =
     (let current_line = lines ! j;
          w1 = w\<lparr>full_error_lines := full_error_lines w @ [current_line]\<rparr>;
          w2 = record_location w1 j current_line
      in if window_ends lines w2 j then w2 else window_loop lines (Suc j) n w2)"

definition strip_ansi :: "string \<Rightarrow> string" where
  "strip_ansi s = sub_empty ansi_pattern s"

definition is_assertion_detail :: "string \<Rightarrow> bool" where
  "is_assertion_detail clean_line =
     (clean_line \<noteq> [] \<and>
      (py_in ''assert'' clean_line \<or> py_in ''|'' clean_line \<or> startswith clean_line ''-->''))"

definition failure_at :: "string list \<Rightarrow> nat \<Rightarrow> failure option" where
  \<comment> \<open>one round of the \<open>while\<close> loop over \<open>i\<close>: the failure it appends, if any\<close>
  "failure_at lines i =
     (let ln = strip (lines ! i) in
      (case find (\<lambda>error_type_pattern. py_in error_type_pattern ln) verification_error_types of
         None \<Rightarrow> None
       | Some et \<Rightarrow>
           if py_in ''error'' (lower ln) then
             (let w = window_loop lines i (min (i + 15) (length lines) - i) initial_window;
                  clean_full_text = map (\<lambda>line_text. strip_ansi (rstrip line_text))
                                        (full_error_lines w)
              in Some \<lparr>error_type = et,
                       failure_file = map_option strip_ansi (file_path_w w),
                       failure_line = line_number_w w,
                       failure_column = column_w w,
                       failure_message = strip_ansi (strip ln),
                       assertion_details =
                         take 10 (filter is_assertion_detail (map strip clean_full_text)),
                       full_error_text = strip (join [newline] clean_full_text)\<rparr>)
           else None))"

definition parse_verification_failures :: "string \<Rightarrow> failure list" where
  "parse_verification_failures output_content =
     (let lines = split_on newline output_content
      in List.map_filter (failure_at lines) [0 ..< length lines])"

section \<open>Locating the function of a diagnostic\<close>

type_synonym func = "string \<times> int"
type_synonym source_index = "(string \<times> func list) list"

fun closest_loop :: "func list \<Rightarrow> int \<Rightarrow> string option \<Rightarrow> int \<Rightarrow> string option" where
  "closest_loop [] line_number closest_function closest_line = closest_function"
| "closest_loop ((func_name, func_line) # fs) line_number closest_function closest_line =
     (if func_line \<le> line_number \<and> func_line > closest_line
      then closest_loop fs line_number (Some func_name) func_line
      else closest_loop fs line_number closest_function closest_line)"

definition closest_function :: "func list \<Rightarrow> int \<Rightarrow> string option" where
  "closest_function functions_in_file line_number =
     closest_loop functions_in_file line_number None 0"

text \<open>
  \<open>str(Path(p))\<close> and \<open>Path(p).name\<close> of \<open>pathlib\<close> on a POSIX system: empty and
  \<open>.\<close> components are dropped, a leading slash is the root (two leading slashes, and
  only two, are kept as they are), and the empty path prints as a dot.
\<close>

definition path_parts :: "string \<Rightarrow> string list" where
  "path_parts p = filter (\<lambda>x. x \<noteq> [] \<and> x \<noteq> ''.'') (split_on CHR ''/'' p)"

definition path_root :: "string \<Rightarrow> string" where
  "path_root p =
     (if startswith p ''//'' \<and> \<not> startswith p ''///'' then ''//''
      else if startswith p ''/'' then ''/'' else [])"

definition path_str :: "string \<Rightarrow> string" where
  "path_str p =
     (if path_root p = [] \<and> path_parts p = [] then ''.''
      else path_root p @ join ''/'' (path_parts p))"

definition path_name :: "string \<Rightarrow> string" where
  "path_name p = (if path_parts p = [] then [] else last (path_parts p))"

text \<open>
  The index \<open>all_functions_with_lines\<close> is a dictionary from file path to a list of
  (name, line) pairs; its keys are visited in insertion order, so it is an association
  list. The first loop of \<open>find_function_at_line\<close> (the version of
  \<open>find_verus_functions_syn.py\<close>) visits the keys and stops at the first key that
  passes one of its four tests.
\<close>

fun matching_file :: "string \<Rightarrow> string list \<Rightarrow> string option" where
  "matching_file file_path [] = None"
| "matching_file file_path (file_key # keys) =
     (if path_str file_path = path_str file_key then Some file_key
      else if endswith (path_str file_path) (path_str file_key)
              \<or> endswith (path_str file_key) (path_str file_path) then Some file_key
      else if py_in (path_str file_path) (path_str file_key)
              \<or> py_in (path_str file_key) (path_str file_path) then Some file_key
      else if path_name file_path = path_name file_key then Some file_key
      else matching_file file_path keys)"

text \<open>The same loop in \<open>find_verus_functions.py\<close>: two tests, on the paths as given.\<close>

fun matching_file_regex :: "string \<Rightarrow> string list \<Rightarrow> string option" where
  "matching_file_regex file_path [] = None"
| "matching_file_regex file_path (file_key # keys) =
     (if py_in file_path file_key \<or> py_in file_key file_path then Some file_key
      else if path_name file_path = path_name file_key then Some file_key
      else matching_file_regex file_path keys)"

definition functions_of :: "source_index \<Rightarrow> string \<Rightarrow> int \<Rightarrow> string option" where
  \<comment> \<open>the second half of \<open>find_function_at_line\<close>, for the key that the first half chose\<close>
  "functions_of all_functions_with_lines key line_number =
     (case map_of all_functions_with_lines key of
        None \<Rightarrow> None
      | Some functions_in_file \<Rightarrow> closest_function functions_in_file line_number)"

definition find_function_at_line :: "string \<Rightarrow> int \<Rightarrow> source_index \<Rightarrow> string option" where
  "find_function_at_line file_path line_number all_functions_with_lines =
     (case matching_file file_path (map fst all_functions_with_lines) of
        None \<Rightarrow> None
      | Some key \<Rightarrow> functions_of all_functions_with_lines key line_number)"

definition find_function_at_line_regex :: "string \<Rightarrow> int \<Rightarrow> source_index \<Rightarrow> string option" where
  "find_function_at_line_regex file_path line_number all_functions_with_lines =
     (case matching_file_regex file_path (map fst all_functions_with_lines) of
        None \<Rightarrow> None
      | Some key \<Rightarrow> functions_of all_functions_with_lines key line_number)"

definition any_rule :: "string \<Rightarrow> string \<Rightarrow> bool" where
  \<comment> \<open>one of the four tests of \<open>matching_file\<close> holds for this key\<close>
  "any_rule file_path file_key =
     (path_str file_path = path_str file_key
      \<or> endswith (path_str file_path) (path_str file_key)
      \<or> endswith (path_str file_key) (path_str file_path)
      \<or> py_in (path_str file_path) (path_str file_key)
      \<or> py_in (path_str file_key) (path_str file_path)
      \<or> path_name file_path = path_name file_key)"

section \<open>VerusAnalyzer: the status of a run\<close>

text \<open>
  The part of \<open>analyze_output\<close> (\<open>find_verus_functions_syn.py\<close>) that decides the
  status and the list of compilation errors. The lists of verified and failed functions
  and the counts of the report do not enter that decision and are not modelled.
\<close>

record report =
  status :: string
  compilation_errors :: "diag list"
  compilation_warnings :: "diag list"
  verification_errors :: "failure list"

definition generic_error :: "int \<Rightarrow> diag" where
  "generic_error exit_code =
     \<lparr>message = ''Command failed with exit code '' @ str_int exit_code,
      src_file = None, line = None, column = None,
      full_message = [''Process exited with code '' @ str_int exit_code]\<rparr>"

definition decide :: "diag list \<Rightarrow> diag list \<Rightarrow> failure list \<Rightarrow> bool \<Rightarrow> int option \<Rightarrow> report" where
  \<comment> \<open>from \<open>has_compilation_errors = ...\<close> to the end of the status decision\<close>
  "decide compilation_errors0 compilation_warnings0 verification_failures
          has_verification_results0 exit_code =
     (let has_compilation_errors = (0 < length compilation_errors0);
          has_verification_failures = (0 < length verification_failures);
          synthesize = ((case exit_code of None \<Rightarrow> False | Some ec \<Rightarrow> ec \<noteq> 0)
                        \<and> \<not> has_compilation_errors \<and> \<not> has_verification_failures
                        \<and> \<not> has_verification_results0);
          compilation_errors1 =
            (case exit_code of
               Some ec \<Rightarrow> if synthesize then compilation_errors0 @ [generic_error ec]
                          else compilation_errors0
             | None \<Rightarrow> compilation_errors0);
          has_compilation_errors1 = (has_compilation_errors \<or> synthesize)
      in \<lparr>status =
            (if has_verification_results0
             then (if has_verification_failures then ''verification_failed'' else ''success'')
             else if has_compilation_errors1 then ''compilation_failed''
             else ''success''),
          compilation_errors = compilation_errors1,
          compilation_warnings = compilation_warnings0,
          verification_errors = verification_failures\<rparr>)"

definition analyze_output :: "string \<Rightarrow> int option \<Rightarrow> report" where
  "analyze_output output_content exit_code =
     (let (compilation_errors0, compilation_warnings0) = parse_compilation_output output_content;
          verification_failures = parse_verification_failures output_content
      in decide compilation_errors0 compilation_warnings0 verification_failures
           (has_verification_results output_content) exit_code)"

section \<open>RustFunctionFinder (find_verus_functions.py)\<close>

definition verus_start_pattern :: rx where
  \<comment> \<open>\<open>\bverus!\s*\{\<close>\<close>
  "verus_start_pattern = seqs [WordB, Lit ''verus!'', Star (Cls is_space), Lit ''{'']"

definition modifier :: rx where
  \<comment> \<open>\<open>(?:spec|proof|exec|open|uninterp|const)\<close>\<close>
  "modifier = alts [Lit ''spec'', Lit ''proof'', Lit ''exec'', Lit ''open'', Lit ''uninterp'',
                    Lit ''const'']"

definition fn_tail :: "nat \<Rightarrow> rx" where
  \<comment> \<open>the common end of both patterns: \<open>fn\s+([a-zA-Z_][a-zA-Z0-9_]*)\s*\(\<close>, the name in group \<open>k\<close>\<close>
  "fn_tail k =
     seqs [Lit ''fn'', Plus (Cls is_space),
           Grp k (Seq (Cls is_ident_start) (Star (Cls is_ident_char))),
           Star (Cls is_space), Lit ''('']"

definition all_fn_pattern :: rx where
  \<comment> \<open>\<open>(?:pub\s+)?((?:spec|proof|exec|open|uninterp|const)\s+)*fn\s+([a-zA-Z_][a-zA-Z0-9_]*)\s*\(\<close>\<close>
  "all_fn_pattern =
     seqs [Opt (Seq (Lit ''pub'') (Plus (Cls is_space))),
           Star (Grp 1 (Seq modifier (Plus (Cls is_space)))),
           fn_tail 2]"

definition const_fn_pattern :: rx where
  \<comment> \<open>\<open>(?:pub\s+)?(?!(?:spec|open|uninterp)\s+)const\s+fn\s+([a-zA-Z_][a-zA-Z0-9_]*)\s*\(\<close>\<close>
  "const_fn_pattern =
     seqs [Opt (Seq (Lit ''pub'') (Plus (Cls is_space))),
           NotAhead (Seq (alts [Lit ''spec'', Lit ''open'', Lit ''uninterp''])
                         (Plus (Cls is_space))),
           Lit ''const'', Plus (Cls is_space), fn_tail 1]"

definition line_comment_pattern :: rx where
  \<comment> \<open>\<open>//.*$\<close> under MULTILINE\<close>
  "line_comment_pattern = seqs [Lit ''//'', Star (Cls not_newline), Eol]"

definition block_comment_pattern :: rx where
  \<comment> \<open>\<open>/\*.*?\*/\<close> under DOTALL\<close>
  "block_comment_pattern = seqs [Lit ''/*'', LazyStar (Cls any_char), Lit ''*/'']"

definition verus_keywords :: "string list" where
  "verus_keywords = [''spec'', ''proof'', ''exec'', ''open'', ''uninterp'']"

definition slice :: "string \<Rightarrow> nat \<Rightarrow> nat \<Rightarrow> string" where
  \<comment> \<open>\<open>content[i:j]\<close> for indices that are not negative\<close>
  "slice content i j = take (j - i) (drop i content)"

function skip_string :: "string \<Rightarrow> nat \<Rightarrow> nat" where
  \<comment> \<open>the loop that skips a string literal, from the character after the opening quote\<close>
  "skip_string content i =
     (if i < length content \<and> content ! i \<noteq> CHR 0x22
      then skip_string content (if content ! i = CHR 0x5C then i + 1 + 1 else i + 1)
      else i)"
  by pat_completeness auto
termination
  by (relation "measure (\<lambda>(content, i). length content - i)") auto

function skip_block_comment :: "string \<Rightarrow> nat \<Rightarrow> nat" where
  \<comment> \<open>\<open>while i < len(content) - 1 and content[i:i+2] != '*/'\<close>\<close>
  "skip_block_comment content i =
     (if i + 1 < length content \<and> slice content i (i + 2) \<noteq> ''*/''
      then skip_block_comment content (i + 1)
      else i)"
  by pat_completeness auto
termination
  by (relation "measure (\<lambda>(content, i). length content - i)") auto

function skip_line_comment :: "string \<Rightarrow> nat \<Rightarrow> nat" where
  \<comment> \<open>\<open>while i < len(content) and content[i] != '\n'\<close>\<close>
  "skip_line_comment content i =
     (if i < length content \<and> content ! i \<noteq> newline
      then skip_line_comment content (i + 1)
      else i)"
  by pat_completeness auto
termination
  by (relation "measure (\<lambda>(content, i). length content - i)") auto

declare skip_string.simps [simp del]
declare skip_block_comment.simps [simp del]
declare skip_line_comment.simps [simp del]

lemma skip_string_ge: "i \<le> skip_string content i"
proof (induction content i rule: skip_string.induct)
  case (1 content i)
  show ?case
  proof (cases "i < length content \<and> content ! i \<noteq> CHR 0x22")
    case True
    have eq: "skip_string content i
               = skip_string content (if content ! i = CHR 0x5C then i + 1 + 1 else i + 1)"
      using True by (subst skip_string.simps) simp
    have "(if content ! i = CHR 0x5C then i + 1 + 1 else i + 1)
           \<le> skip_string content (if content ! i = CHR 0x5C then i + 1 + 1 else i + 1)"
      using "1.IH" True by blast
    moreover have "i \<le> (if content ! i = CHR 0x5C then i + 1 + 1 else i + 1)"
      by simp
    ultimately show ?thesis unfolding eq by (rule order_trans [rotated])
  next
    case False
    then show ?thesis by (subst skip_string.simps) auto
  qed
qed

lemma skip_block_comment_ge: "i \<le> skip_block_comment content i"
proof (induction content i rule: skip_block_comment.induct)
  case (1 content i)
  show ?case
  proof (cases "i + 1 < length content \<and> slice content i (i + 2) \<noteq> ''*/''")
    case True
    have eq: "skip_block_comment content i = skip_block_comment content (i + 1)"
      using True by (subst skip_block_comment.simps) simp
    have "i + 1 \<le> skip_block_comment content (i + 1)"
      using "1.IH" True by blast
    then show ?thesis unfolding eq by simp
  next
    case False
    then show ?thesis by (subst skip_block_comment.simps) auto
  qed
qed

lemma skip_line_comment_ge: "i \<le> skip_line_comment content i"
proof (induction content i rule: skip_line_comment.induct)
  case (1 content i)
  show ?case
  proof (cases "i < length content \<and> content ! i \<noteq> newline")
    case True
    have eq: "skip_line_comment content i = skip_line_comment content (i + 1)"
      using True by (subst skip_line_comment.simps) simp
    have "i + 1 \<le> skip_line_comment content (i + 1)"
      using "1.IH" True by blast
    then show ?thesis unfolding eq by simp
  next
    case False
    then show ?thesis by (subst skip_line_comment.simps) auto
  qed
qed

function brace_loop :: "string \<Rightarrow> int \<Rightarrow> nat \<Rightarrow> nat option" where
  \<comment> \<open>the \<open>while\<close> loop of \<open>find_matching_brace\<close>; \<open>None\<close> is the result \<open>-1\<close>\<close>
  "brace_loop content brace_count i =
     (if i < length content then
        (if content ! i = CHR ''{'' then brace_loop content (brace_count + 1) (i + 1)
         else if content ! i = CHR ''}'' then
           (if brace_count - 1 = 0 then Some i
            else brace_loop content (brace_count - 1) (i + 1))
         else if content ! i = CHR 0x22 then
           brace_loop content brace_count (skip_string content (i + 1) + 1)
         else if slice content i (i + 2) = ''/*'' then
           brace_loop content brace_count (skip_block_comment content (i + 2) + 1 + 1)
         else if slice content i (i + 2) = ''//'' then
           brace_loop content brace_count (skip_line_comment content i + 1)
         else brace_loop content brace_count (i + 1))
      else None)"
  by pat_completeness auto
termination
proof (relation "measure (\<lambda>(content, brace_count, i). length content - i)", goal_cases)
  case 1
  show ?case by simp
next
  case (2 content brace_count i)
  then show ?case by simp
next
  case (3 content brace_count i)
  then show ?case by simp
next
  case (4 content brace_count i)
  have "i + 1 \<le> skip_string content (i + 1)" by (rule skip_string_ge)
  with 4 show ?case by simp
next
  case (5 content brace_count i)
  have "i + 2 \<le> skip_block_comment content (i + 2)" by (rule skip_block_comment_ge)
  with 5 show ?case by simp
next
  case (6 content brace_count i)
  have "i \<le> skip_line_comment content i" by (rule skip_line_comment_ge)
  with 6 show ?case by simp
next
  case (7 content brace_count i)
  then show ?case by simp
qed

declare brace_loop.simps [simp del]

definition find_matching_brace :: "string \<Rightarrow> nat \<Rightarrow> nat option" where
  "find_matching_brace content start_pos = brace_loop content 0 start_pos"

text \<open>
  Matching never moves backwards, a match of \<open>verus_start_pattern\<close> is not empty, and
  \<open>find_matching_brace\<close> answers with a position at or after its start: the facts
  that make the loop of \<open>extract_verus_blocks\<close> terminate.
\<close>

lemma lit_rest: "st' \<in> set (lit w st) \<Longrightarrow> length (rest st') + length w = length (rest st)"
  by (induction w st rule: lit.induct) (auto simp: rest_def split: if_splits)

lemma greedy_rest_le: "st' \<in> set (greedy f n st) \<Longrightarrow> length (rest st') \<le> length (rest st)"
proof (induction n arbitrary: st)
  case 0
  then show ?case by simp
next
  case (Suc n)
  from Suc.prems consider (stop) "st' = st"
    | (round) st1 where "st1 \<in> set (f st)" "length (rest st1) < length (rest st)"
        "st' \<in> set (greedy f n st1)"
    by (auto split: if_splits)
  then show ?case
  proof cases
    case stop
    then show ?thesis by simp
  next
    case round
    from Suc.IH [OF round(3)] round(2) show ?thesis by simp
  qed
qed

lemma lazy_rest_le: "st' \<in> set (lazy f n st) \<Longrightarrow> length (rest st') \<le> length (rest st)"
proof (induction n arbitrary: st)
  case 0
  then show ?case by simp
next
  case (Suc n)
  from Suc.prems consider (stop) "st' = st"
    | (round) st1 where "st1 \<in> set (f st)" "length (rest st1) < length (rest st)"
        "st' \<in> set (lazy f n st1)"
    by (auto split: if_splits)
  then show ?case
  proof cases
    case stop
    then show ?thesis by simp
  next
    case round
    from Suc.IH [OF round(3)] round(2) show ?thesis by simp
  qed
qed

lemma run_rest_le: "st' \<in> set (run r st) \<Longrightarrow> length (rest st') \<le> length (rest st)"
proof (induction r arbitrary: st st')
  case (Lit w)
  then show ?case using lit_rest [of st' w st] by simp
next
  case (Cls P)
  show ?case
  proof (cases "rest st")
    case Nil
    with Cls show ?thesis by simp
  next
    case (Cons x xs)
    with Cls show ?thesis by (auto simp: rest_def split: if_splits)
  qed
next
  case (Seq a b)
  from Seq.prems obtain st1 where "st1 \<in> set (run a st)" "st' \<in> set (run b st1)" by auto
  then show ?case using Seq.IH(1) [of st1 st] Seq.IH(2) [of st' st1] by simp
next
  case (Alt a b)
  from Alt.prems have "st' \<in> set (run a st) \<or> st' \<in> set (run b st)" by simp
  then show ?case using Alt.IH(1) [of st' st] Alt.IH(2) [of st' st] by blast
next
  case (Opt a)
  from Opt.prems have "st' \<in> set (run a st) \<or> st' = st" by auto
  then show ?case using Opt.IH [of st' st] by auto
next
  case (Star a)
  then show ?case using greedy_rest_le by simp
next
  case (Plus a)
  from Plus.prems obtain st1 where "st1 \<in> set (run a st)"
      "st' \<in> set (greedy (run a) (length (rest st1)) st1)" by auto
  then show ?case
    using Plus.IH [of st1 st] greedy_rest_le [of st' "run a" "length (rest st1)" st1] by simp
next
  case (LazyStar a)
  then show ?case using lazy_rest_le by simp
next
  case (Grp k a)
  from Grp.prems obtain st1 where "st1 \<in> set (run a st)" "rest st' = rest st1"
    by (auto simp: rest_def)
  then show ?case using Grp.IH [of st1 st] by simp
next
  case (NotAhead a)
  then show ?case by (auto split: if_splits)
next
  case WordB
  then show ?case by (auto split: if_splits)
next
  case Eol
  then show ?case by (auto split: list.splits if_splits)
qed

lemma match_at_le: "match_at r p s = Some (n, c) \<Longrightarrow> n \<le> length s"
  by (auto simp: match_at_def split: list.splits)

lemma search_at_bounds:
  "search_at r p s pos = Some (b, e, c) \<Longrightarrow> pos \<le> b \<and> b \<le> e \<and> e \<le> pos + length s"
proof (induction s arbitrary: p pos)
  case Nil
  then show ?case using match_at_le [of r p "[]"] by (auto split: option.splits)
next
  case (Cons x s)
  show ?case
  proof (cases "match_at r p (x # s)")
    case None
    with Cons.prems have "search_at r (Some x) s (Suc pos) = Some (b, e, c)" by simp
    from Cons.IH [OF this] show ?thesis by simp
  next
    case (Some nc)
    obtain n c' where nc: "nc = (n, c')" by (cases nc)
    with Some Cons.prems match_at_le [of r p "x # s" n c'] show ?thesis by auto
  qed
qed

lemma verus_start_not_empty: "match_at verus_start_pattern p s = Some (n, c) \<Longrightarrow> 0 < n"
proof -
  assume a: "match_at verus_start_pattern p s = Some (n, c)"
  let ?tail = "Seq (Star (Cls is_space)) (Lit ''{'')"
  from a obtain st' where st': "st' \<in> set (run verus_start_pattern (p, s, []))"
      and n: "n = length s - length (rest st')"
    by (auto simp: match_at_def split: list.splits)
  from st' obtain st1 where "st1 \<in> set (lit ''verus!'' (p, s, []))" "st' \<in> set (run ?tail st1)"
    by (auto simp: verus_start_pattern_def split: if_splits)
  then have "length (rest st1) + 6 = length s" "length (rest st') \<le> length (rest st1)"
    using lit_rest [of st1 "''verus!''" "(p, s, [])"] run_rest_le [of st' ?tail st1]
    by (simp_all add: rest_def)
  with n show ?thesis by simp
qed

lemma search_at_verus_start:
  "search_at verus_start_pattern p s pos = Some (b, e, c) \<Longrightarrow> b < e"
proof (induction s arbitrary: p pos)
  case Nil
  then show ?case using verus_start_not_empty [of p "[]"] by (auto split: option.splits)
next
  case (Cons x s)
  show ?case
  proof (cases "match_at verus_start_pattern p (x # s)")
    case None
    with Cons.prems have "search_at verus_start_pattern (Some x) s (Suc pos) = Some (b, e, c)"
      by simp
    from Cons.IH [OF this] show ?thesis .
  next
    case (Some nc)
    obtain n c' where nc: "nc = (n, c')" by (cases nc)
    with Some Cons.prems verus_start_not_empty [of p "x # s" n c'] show ?thesis by auto
  qed
qed

lemma brace_loop_bounds:
  "brace_loop content brace_count i = Some e \<Longrightarrow> i \<le> e \<and> e < length content"
proof (induction content brace_count i rule: brace_loop.induct)
  case (1 content brace_count i)
  have lt: "i < length content"
    using "1.prems" by (subst (asm) brace_loop.simps) (simp split: if_splits)
  note step = "1.prems" [unfolded brace_loop.simps [of content brace_count i]]
  consider (open_brace) "content ! i = CHR ''{''"
    | (close_brace) "content ! i \<noteq> CHR ''{''" "content ! i = CHR ''}''"
    | (quote) "content ! i \<noteq> CHR ''{''" "content ! i \<noteq> CHR ''}''" "content ! i = CHR 0x22"
    | (block) "content ! i \<noteq> CHR ''{''" "content ! i \<noteq> CHR ''}''" "content ! i \<noteq> CHR 0x22"
        "slice content i (i + 2) = ''/*''"
    | (line) "content ! i \<noteq> CHR ''{''" "content ! i \<noteq> CHR ''}''" "content ! i \<noteq> CHR 0x22"
        "slice content i (i + 2) \<noteq> ''/*''" "slice content i (i + 2) = ''//''"
    | (other) "content ! i \<noteq> CHR ''{''" "content ! i \<noteq> CHR ''}''" "content ! i \<noteq> CHR 0x22"
        "slice content i (i + 2) \<noteq> ''/*''" "slice content i (i + 2) \<noteq> ''//''"
    by blast
  then show ?case
  proof cases
    case open_brace
    with step lt have "brace_loop content (brace_count + 1) (i + 1) = Some e" by simp
    from "1.IH"(1) [OF lt open_brace this] show ?thesis by simp
  next
    case close_brace
    show ?thesis
    proof (cases "brace_count - 1 = 0")
      case True
      with step lt close_brace show ?thesis by simp
    next
      case False
      with step lt close_brace have "brace_loop content (brace_count - 1) (i + 1) = Some e"
        by simp
      from "1.IH"(2) [OF lt close_brace False this] show ?thesis by simp
    qed
  next
    case quote
    with step lt have "brace_loop content brace_count (skip_string content (i + 1) + 1) = Some e"
      by simp
    from "1.IH"(3) [OF lt quote this] skip_string_ge [of "i + 1" content] show ?thesis by simp
  next
    case block
    with step lt
    have "brace_loop content brace_count (skip_block_comment content (i + 2) + 1 + 1) = Some e"
      by simp
    from "1.IH"(4) [OF lt block this] skip_block_comment_ge [of "i + 2" content]
    show ?thesis by simp
  next
    case line
    with step lt
    have "brace_loop content brace_count (skip_line_comment content i + 1) = Some e"
      by simp
    from "1.IH"(5) [OF lt line this] skip_line_comment_ge [of i content] show ?thesis by simp
  next
    case other
    with step lt have "brace_loop content brace_count (i + 1) = Some e" by simp
    from "1.IH"(6) [OF lt other this] show ?thesis by simp
  qed
qed

lemma block_progress:
  assumes "search_from verus_start_pattern content start = Some (match_start, match_end, c)"
    and "find_matching_brace content (match_end - 1) = Some brace_end"
  shows "start \<le> match_start \<and> match_start < match_end \<and> match_end - 1 \<le> brace_end
         \<and> brace_end < length content \<and> start < brace_end + 1"
proof -
  from assms(1) have "start \<le> match_start" "match_start < match_end"
    using search_at_bounds [of verus_start_pattern _ _ start match_start match_end c]
      search_at_verus_start [of _ _ start match_start match_end c]
    by (simp_all add: search_from_def)
  moreover from assms(2) have "match_end - 1 \<le> brace_end" "brace_end < length content"
    using brace_loop_bounds [of content 0 "match_end - 1" brace_end]
    by (simp_all add: find_matching_brace_def)
  ultimately show ?thesis by simp
qed

function blocks_loop :: "string \<Rightarrow> nat \<Rightarrow> (string \<times> int) list" where
  \<comment> \<open>the \<open>while True\<close> loop of \<open>extract_verus_blocks\<close>, from the position \<open>start\<close>\<close>
  "blocks_loop content start =
     (case search_from verus_start_pattern content start of
        None \<Rightarrow> []
      | Some (match_start, match_end, c) \<Rightarrow>
          (case find_matching_brace content (match_end - 1) of
             None \<Rightarrow> []
           | Some brace_end \<Rightarrow>
               (slice content match_start (brace_end + 1),
                int (count_nl (take match_start content)) + 1)
               # blocks_loop content (brace_end + 1)))"
  by pat_completeness auto
termination
proof (relation "measure (\<lambda>(content, start). length content - start)", goal_cases)
  case 1
  show ?case by simp
next
  case (2 content start m match_start me match_end c brace_end)
  then have "search_from verus_start_pattern content start = Some (match_start, match_end, c)"
    by simp
  from block_progress [OF this 2(4)]
  have "length content - (brace_end + 1) < length content - start" by arith
  then show ?case by simp
qed

declare blocks_loop.simps [simp del]

definition extract_verus_blocks :: "string \<Rightarrow> (string \<times> int) list" where
  "extract_verus_blocks content = blocks_loop content 0"

definition remove_comments :: "string \<Rightarrow> string" where
  "remove_comments content =
     sub_empty block_comment_pattern (sub_empty line_comment_pattern content)"

definition has_verus_keyword :: "string \<Rightarrow> bool" where
  \<comment> \<open>\<open>any(kw in keywords for kw in ['spec', 'proof', 'exec', 'open', 'uninterp'])\<close>\<close>
  "has_verus_keyword keywords = list_ex (\<lambda>kw. py_in kw keywords) verus_keywords"

definition line_of :: "string \<Rightarrow> int \<Rightarrow> nat \<Rightarrow> int" where
  \<comment> \<open>\<open>block_start_line + content_no_comments[:match.start()].count('\n') + 1\<close>\<close>
  "line_of content_no_comments block_start_line match_start =
     block_start_line + int (count_nl (take match_start content_no_comments)) + 1"

definition general_function :: "string \<Rightarrow> int \<Rightarrow> rmatch \<Rightarrow> func option" where
  \<comment> \<open>the body of the first loop: what a match of \<open>all_fn_pattern\<close> appends, if anything\<close>
  "general_function content_no_comments block_start_line mt =
     (case mt of (match_start, match_end, c) \<Rightarrow>
        (let keywords = (case group c 1 of Some g \<Rightarrow> g | None \<Rightarrow> [])
         in if \<not> has_verus_keyword keywords
            then Some (group_text c 2, line_of content_no_comments block_start_line match_start)
            else None))"

definition general_functions :: "string \<Rightarrow> int \<Rightarrow> func list" where
  "general_functions content_no_comments block_start_line =
     List.map_filter (general_function content_no_comments block_start_line)
       (finditer all_fn_pattern content_no_comments)"

definition const_functions :: "string \<Rightarrow> int \<Rightarrow> func list" where
  \<comment> \<open>the second loop: every match of \<open>const_fn_pattern\<close> is appended\<close>
  "const_functions content_no_comments block_start_line =
     map (\<lambda>(match_start, match_end, c).
            (group_text c 1, line_of content_no_comments block_start_line match_start))
         (finditer const_fn_pattern content_no_comments)"

definition extract_functions_from_block :: "string \<Rightarrow> int \<Rightarrow> func list" where
  "extract_functions_from_block block_content block_start_line =
     (let content_no_comments = remove_comments block_content
      in general_functions content_no_comments block_start_line
         @ const_functions content_no_comments block_start_line)"

definition analyze_file :: "string \<Rightarrow> func list" where
  \<comment> \<open>\<open>analyze_file\<close>, from the text that it has read from the file\<close>
  "analyze_file content =
     concat (map (\<lambda>(block_content, block_start_line).
                    extract_functions_from_block block_content block_start_line)
                 (extract_verus_blocks content))"

section \<open>Notions for the statements and proofs\<close>













section \<open>Properties of the correlator\<close>

lemma closest_loop_Some: "closest_loop fs n (Some x) cl \<noteq> None"
  by (induction fs arbitrary: x cl) auto

lemma closest_loop_None:
  "closest_loop fs n cf cl = None \<longleftrightarrow>
     cf = None \<and> (\<forall>(nm, l) \<in> set fs. \<not> (l \<le> n \<and> cl < l))"
proof (induction fs arbitrary: cf cl)
  case Nil
  show ?case by simp
next
  case (Cons f fs)
  obtain nm l where f: "f = (nm, l)" by (cases f)
  show ?case
  proof (cases "l \<le> n \<and> cl < l")
    case True
    then show ?thesis using f closest_loop_Some by auto
  next
    case False
    then show ?thesis using f Cons.IH [of cf cl] by auto
  qed
qed

lemma closest_loop_greatest:
  "closest_loop fs n cf cl = Some nm \<Longrightarrow>
     (cf = Some nm \<and> (\<forall>p \<in> set fs. snd p \<le> n \<longrightarrow> snd p \<le> cl))
     \<or> (\<exists>l. (nm, l) \<in> set fs \<and> l \<le> n \<and> cl < l
             \<and> (\<forall>p \<in> set fs. snd p \<le> n \<longrightarrow> snd p \<le> l))"
proof (induction fs arbitrary: cf cl)
  case Nil
  then show ?case by simp
next
  case (Cons f fs)
  obtain fn fl where f: "f = (fn, fl)" by (cases f)
  show ?case
  proof (cases "fl \<le> n \<and> cl < fl")
    case True
    with Cons.prems f have "closest_loop fs n (Some fn) fl = Some nm" by simp
    from Cons.IH [OF this]
    consider (a) "fn = nm" "\<forall>p \<in> set fs. snd p \<le> n \<longrightarrow> snd p \<le> fl"
      | (b) l where "(nm, l) \<in> set fs" "l \<le> n" "fl < l"
          "\<forall>p \<in> set fs. snd p \<le> n \<longrightarrow> snd p \<le> l"
      by auto
    then show ?thesis
    proof cases
      case a
      have "(nm, fl) \<in> set (f # fs) \<and> fl \<le> n \<and> cl < fl
            \<and> (\<forall>p \<in> set (f # fs). snd p \<le> n \<longrightarrow> snd p \<le> fl)"
        using a True f by simp
      then show ?thesis by blast
    next
      case b
      have "(nm, l) \<in> set (f # fs) \<and> l \<le> n \<and> cl < l
            \<and> (\<forall>p \<in> set (f # fs). snd p \<le> n \<longrightarrow> snd p \<le> l)"
        using b True f by simp
      then show ?thesis by blast
    qed
  next
    case False
    with Cons.prems f have "closest_loop fs n cf cl = Some nm" by auto
    from Cons.IH [OF this]
    consider (a) "cf = Some nm" "\<forall>p \<in> set fs. snd p \<le> n \<longrightarrow> snd p \<le> cl"
      | (b) l where "(nm, l) \<in> set fs" "l \<le> n" "cl < l"
          "\<forall>p \<in> set fs. snd p \<le> n \<longrightarrow> snd p \<le> l"
      by auto
    then show ?thesis
    proof cases
      case a
      have "\<forall>p \<in> set (f # fs). snd p \<le> n \<longrightarrow> snd p \<le> cl"
        using a False f by auto
      with a show ?thesis by blast
    next
      case b
      have "(nm, l) \<in> set (f # fs) \<and> l \<le> n \<and> cl < l
            \<and> (\<forall>p \<in> set (f # fs). snd p \<le> n \<longrightarrow> snd p \<le> l)"
        using b False f by auto
      then show ?thesis by blast
    qed
  qed
qed

text \<open>
  C3. Once the file of a diagnostic has matched a key of the index, and the definition
  lines of that file are 1-based, the function returned is one whose definition line is
  the greatest among those at or before the diagnostic's line (the line itself
  included), and nothing is returned exactly when every definition line is after the
  diagnostic's line, as for an empty list. Both versions of \<open>find_function_at_line\<close>
  end in the same loop.
\<close>

theorem find_function_at_line_greatest:
  assumes "map_of idx key = Some fs"
    and "\<forall>(nm, l) \<in> set fs. 0 < l"
    and "matching_file file_path (map fst idx) = Some key
         \<or> matching_file_regex file_path (map fst idx) = Some key"
  shows "(functions_of idx key n = None \<longleftrightarrow> (\<forall>(nm, l) \<in> set fs. n < l))
       \<and> (\<forall>nm. functions_of idx key n = Some nm \<longrightarrow>
             (\<exists>l. (nm, l) \<in> set fs \<and> l \<le> n \<and> (\<forall>(nm', l') \<in> set fs. l' \<le> n \<longrightarrow> l' \<le> l)))
       \<and> (matching_file file_path (map fst idx) = Some key \<longrightarrow>
             find_function_at_line file_path n idx = functions_of idx key n)
       \<and> (matching_file_regex file_path (map fst idx) = Some key \<longrightarrow>
             find_function_at_line_regex file_path n idx = functions_of idx key n)"
proof -
  have eq: "functions_of idx key n = closest_loop fs n None 0"
    using assms(1) by (simp add: functions_of_def closest_function_def)
  have none: "functions_of idx key n = None \<longleftrightarrow> (\<forall>(nm, l) \<in> set fs. n < l)"
    unfolding eq closest_loop_None using assms(2) by fastforce
  have some: "\<exists>l. (nm, l) \<in> set fs \<and> l \<le> n \<and> (\<forall>(nm', l') \<in> set fs. l' \<le> n \<longrightarrow> l' \<le> l)"
    if "functions_of idx key n = Some nm" for nm
    using closest_loop_greatest [of fs n None 0 nm] that unfolding eq
    by (simp add: case_prod_beta) blast
  show ?thesis
    using none some
    by (auto simp: find_function_at_line_def find_function_at_line_regex_def)
qed

theorem find_function_at_line_greatest_witness:
  "find_function_at_line ''src/lib.rs'' 5 [(''src/lib.rs'', [(''a'', 10), (''b'', 50), (''c'', 120)])] = None
   \<and> find_function_at_line ''src/lib.rs'' 75 [(''src/lib.rs'', [(''a'', 10), (''b'', 50), (''c'', 120)])] = Some ''b''
   \<and> find_function_at_line ''src/lib.rs'' 50 [(''src/lib.rs'', [(''a'', 10), (''b'', 50), (''c'', 120)])] = Some ''b''
   \<and> find_function_at_line_regex ''src/lib.rs'' 5 [(''src/lib.rs'', [(''a'', 10), (''b'', 50), (''c'', 120)])] = None"
proof -
  let ?fs = "[(''a'', 10), (''b'', 50), (''c'', 120)] :: func list"
  let ?idx = "[(''src/lib.rs'', ?fs)] :: source_index"
  have h1: "map_of ?idx ''src/lib.rs'' = Some ?fs" by simp
  have h2: "\<forall>(nm, l) \<in> set ?fs. 0 < l" by simp
  have m: "matching_file ''src/lib.rs'' (map fst ?idx) = Some ''src/lib.rs''" by simp
  have mr: "matching_file_regex ''src/lib.rs'' (map fst ?idx) = Some ''src/lib.rs''" by simp
  have h3: "matching_file ''src/lib.rs'' (map fst ?idx) = Some ''src/lib.rs''
            \<or> matching_file_regex ''src/lib.rs'' (map fst ?idx) = Some ''src/lib.rs''"
    using m by simp
  note t = find_function_at_line_greatest [OF h1 h2 h3]
  have none: "functions_of ?idx ''src/lib.rs'' 5 = None" using t [of 5] by simp
  have "find_function_at_line ''src/lib.rs'' 5 ?idx = None"
    using t [of 5] m none by simp
  moreover have "find_function_at_line_regex ''src/lib.rs'' 5 ?idx = None"
    using t [of 5] mr none by simp
  moreover have "find_function_at_line ''src/lib.rs'' 75 ?idx = Some ''b''"
    by (simp add: find_function_at_line_def functions_of_def closest_function_def)
  moreover have "find_function_at_line ''src/lib.rs'' 50 ?idx = Some ''b''"
    by (simp add: find_function_at_line_def functions_of_def closest_function_def)
  ultimately show ?thesis by simp
qed

lemma matching_file_find: "matching_file file_path keys = find (any_rule file_path) keys"
  by (induction keys) (auto simp: any_rule_def)

text \<open>
  C7, as the code has it. The keys of the index are visited in their order, and the
  first key that passes any one of the four tests is chosen: the order of the tests
  ranks the tests for one key, not the keys. A key equal to the diagnostic's path is
  therefore chosen when no key before it passes a test.
\<close>

theorem matching_file_first_key:
  "matching_file file_path keys = find (any_rule file_path) keys
   \<and> (\<forall>before key after.
         keys = before @ key # after \<and> path_str file_path = path_str key
         \<and> (\<forall>k \<in> set before. \<not> any_rule file_path k)
         \<longrightarrow> matching_file file_path keys = Some key)"
proof -
  have "find (any_rule file_path) (before @ key # after) = Some key"
    if "path_str file_path = path_str key" "\<forall>k \<in> set before. \<not> any_rule file_path k"
    for before key after
    using that by (induction before) (auto simp: any_rule_def)
  then show ?thesis unfolding matching_file_find by blast
qed

theorem matching_file_first_key_witness:
  "matching_file ''src/lib.rs'' [''docs/readme.md'', ''src/lib.rs'', ''other/lib.rs'']
     = Some ''src/lib.rs''"
proof -
  have "\<forall>k \<in> set [''docs/readme.md'']. \<not> any_rule ''src/lib.rs'' k"
    by code_simp
  then show ?thesis
    using matching_file_first_key [of "''src/lib.rs''"
        "[''docs/readme.md'', ''src/lib.rs'', ''other/lib.rs'']"]
    by (metis append_Cons append_Nil)
qed

text \<open>
  The claim C7 as stated fails: the index holds the diagnostic's own path, but a key
  before it has the same file name and is chosen.
\<close>

theorem matching_file_exact_counterexample:
  "path_str ''src/lib.rs'' = path_str ''src/lib.rs''
   \<and> path_str ''src/lib.rs'' \<noteq> path_str ''other/lib.rs''
   \<and> path_name ''src/lib.rs'' = path_name ''other/lib.rs''
   \<and> matching_file ''src/lib.rs'' [''other/lib.rs'', ''src/lib.rs''] = Some ''other/lib.rs''
   \<and> find_function_at_line ''src/lib.rs'' 12
        [(''other/lib.rs'', [(''g'', 10)]), (''src/lib.rs'', [(''f'', 10)])] = Some ''g''"
  by code_simp

section \<open>Properties of the status decision\<close>

text \<open>
  C2, as the code has it. The generic error is synthesized under three conditions, not
  two: no summary of verification results, no compilation error parsed, and no
  verification failure extracted either. Then a nonzero exit code gives the status
  \<open>compilation_failed\<close> and exactly one compilation error, whose message ends in the
  exit code.
\<close>

theorem analyze_output_generic_error:
  assumes "\<not> has_verification_results output_content"
    and "fst (parse_compilation_output output_content) = []"
    and "parse_verification_failures output_content = []"
    and "exit_code \<noteq> 0"
  shows "status (analyze_output output_content (Some exit_code)) = ''compilation_failed''
       \<and> compilation_errors (analyze_output output_content (Some exit_code))
           = [generic_error exit_code]
       \<and> message (generic_error exit_code)
           = ''Command failed with exit code '' @ str_int exit_code"
  using assms
  by (cases "parse_compilation_output output_content")
     (simp add: analyze_output_def decide_def generic_error_def)

theorem analyze_output_generic_error_witness:
  "status (analyze_output ''done'' (Some 101)) = ''compilation_failed''
   \<and> compilation_errors (analyze_output ''done'' (Some 101)) = [generic_error 101]
   \<and> message (generic_error 101) = ''Command failed with exit code 101''"
proof -
  have h1: "\<not> has_verification_results ''done''" by code_simp
  have h2: "fst (parse_compilation_output ''done'') = []" by code_simp
  have h3: "parse_verification_failures ''done'' = []" by code_simp
  have h4: "(101 :: int) \<noteq> 0" by simp
  have s: "str_int 101 = ''101''" by code_simp
  show ?thesis using analyze_output_generic_error [OF h1 h2 h3 h4] s by simp
qed

text \<open>
  The claim C2 as stated fails: a line that reports a failed assertion gives no
  compilation error and there is no summary, yet with the exit code 101 no error is
  synthesized and the status is \<open>success\<close>.
\<close>

theorem analyze_output_generic_error_counterexample:
  "\<not> has_verification_results ''error: assertion failed''
   \<and> fst (parse_compilation_output ''error: assertion failed'') = []
   \<and> status (analyze_output ''error: assertion failed'' (Some 101)) = ''success''
   \<and> compilation_errors (analyze_output ''error: assertion failed'' (Some 101)) = []"
  by code_simp

section \<open>Properties of the block extractor\<close>

text \<open>
  C6, as the code has it. When the end of the text is reached before the braces of a
  block balance, \<open>find_matching_brace\<close> answers \<open>-1\<close> and the loop of
  \<open>extract_verus_blocks\<close> stops: the block is dropped without an error, and so is
  everything after its marker. When the braces balance, the block is reported and the
  loop goes on from the position after the closing brace, which is beyond the start of
  this round; so the loop terminates on every text.
\<close>

theorem blocks_loop_step:
  assumes "search_from verus_start_pattern content start = Some (match_start, match_end, c)"
  shows "(find_matching_brace content (match_end - 1) = None \<longrightarrow> blocks_loop content start = [])
       \<and> (\<forall>brace_end. find_matching_brace content (match_end - 1) = Some brace_end \<longrightarrow>
             blocks_loop content start
               = (slice content match_start (brace_end + 1),
                  int (count_nl (take match_start content)) + 1)
                 # blocks_loop content (brace_end + 1)
             \<and> start < brace_end + 1 \<and> brace_end < length content)"
proof -
  have "blocks_loop content start = []" if "find_matching_brace content (match_end - 1) = None"
    using assms that by (subst blocks_loop.simps) simp
  moreover have "blocks_loop content start
               = (slice content match_start (brace_end + 1),
                  int (count_nl (take match_start content)) + 1)
                 # blocks_loop content (brace_end + 1)
             \<and> start < brace_end + 1 \<and> brace_end < length content"
    if "find_matching_brace content (match_end - 1) = Some brace_end" for brace_end
  proof -
    have "blocks_loop content start
               = (slice content match_start (brace_end + 1),
                  int (count_nl (take match_start content)) + 1)
                 # blocks_loop content (brace_end + 1)"
      using assms that by (subst blocks_loop.simps) simp
    then show ?thesis using block_progress [OF assms that] by simp
  qed
  ultimately show ?thesis by blast
qed

theorem blocks_loop_step_witness:
  "blocks_loop ''verus!{ verus!{}'' 0 = []
   \<and> blocks_loop ''verus!{} verus!{'' 0 = (''verus!{}'', 1) # blocks_loop ''verus!{} verus!{'' 8"
proof -
  have s1: "search_from verus_start_pattern ''verus!{ verus!{}'' 0 = Some (0, 7, [])"
    by code_simp
  have b1: "find_matching_brace ''verus!{ verus!{}'' (7 - 1) = None"
    by code_simp
  have s2: "search_from verus_start_pattern ''verus!{} verus!{'' 0 = Some (0, 7, [])"
    by code_simp
  have b2: "find_matching_brace ''verus!{} verus!{'' (7 - 1) = Some 7"
    by code_simp
  have v: "slice ''verus!{} verus!{'' 0 (7 + 1) = ''verus!{}''"
      "int (count_nl (take 0 ''verus!{} verus!{'')) + 1 = 1"
    by code_simp+
  show ?thesis
    using blocks_loop_step [OF s1] blocks_loop_step [OF s2] b1 b2 v by simp
qed

text \<open>
  The claim C6 as stated fails: in this text the braces of the first block never
  balance, and the block after its opening brace (which is at position 6) is well
  formed; a scan resumed at position 7 reports it, but the scan of the whole text
  reports nothing.
\<close>

theorem extract_verus_blocks_resume_counterexample:
  "find_matching_brace ''verus!{ verus!{}'' 6 = None
   \<and> blocks_loop ''verus!{ verus!{}'' 7 = [(''verus!{}'', 1)]
   \<and> extract_verus_blocks ''verus!{ verus!{}'' = []"
  by code_simp

section \<open>Properties of the function scanner\<close>

text \<open>
  C1. The claim holds of the specification, not of the code: the group
  \<open>((?:spec|...|const)\s+)*\<close> is repeated, so \<open>match.group(1)\<close> is its last round
  only, and the test for a verification keyword sees the last modifier alone. For
  \<open>pub spec const fn\<close> that is \<open>const\<close>: the function is reported, and reported once
  more by \<open>const_fn_pattern\<close>, which finds \<open>const fn\<close> behind \<open>spec\<close>.
\<close>

theorem extract_functions_spec_const:
  "extract_verus_blocks ''verus! { pub spec const fn foo() {} }''
     = [(''verus! { pub spec const fn foo() {} }'', 1)]
   \<and> extract_functions_from_block ''verus! { pub spec const fn foo() {} }'' 1
     = [(''foo'', 2), (''foo'', 2)]
   \<and> extract_functions_from_block ''verus! { pub const spec fn foo() {} }'' 1 = []"
  by code_simp

section \<open>Properties of the diagnostic parser\<close>


























lemma greedy_not_Nil: "greedy f n st \<noteq> []"
  by (cases n) simp_all

lemma lit_prefix: "lit w (p, s, c) \<noteq> [] \<Longrightarrow> prefix w s"
proof (induction w arbitrary: p s)
  case Nil
  show ?case by simp
next
  case (Cons a w)
  then obtain x s' where s: "s = x # s'" by (cases s) auto
  with Cons.prems have "a = x" "lit w (Some x, s', c) \<noteq> []" by (auto split: if_splits)
  with Cons.IH [of "Some x" s'] s show ?case by simp
qed

lemma match_at_Lit: "match_at (Lit w) p s = Some nc \<Longrightarrow> prefix w s"
proof -
  assume "match_at (Lit w) p s = Some nc"
  then have "lit w (p, s, []) \<noteq> []"
    by (auto simp: match_at_def split: list.splits)
  then show ?thesis by (rule lit_prefix)
qed

lemma error_pattern_at:
  assumes "not_newline x"
  shows "match_at error_pattern p (''error: '' @ x # t) \<noteq> None"
proof -
  have "run (Plus (Cls not_newline)) (Some CHR '' '', x # t, []) \<noteq> []"
    using assms greedy_not_Nil by (simp add: rest_def)
  then have "run (Grp 1 (Plus (Cls not_newline))) (Some CHR '' '', x # t, []) \<noteq> []"
    by simp
  then have "run error_pattern (p, ''error: '' @ x # t, []) \<noteq> []"
    by (simp add: error_pattern_def rest_def)
  then show ?thesis by (simp add: match_at_def split: list.splits)
qed

lemma search_at_error_phrase:
  "search_at (Lit (''error: '' @ x # w)) p s pos \<noteq> None \<Longrightarrow> not_newline x \<Longrightarrow>
   search_at error_pattern p s pos \<noteq> None"
proof (induction s arbitrary: p pos)
  case Nil
  then show ?case by (simp add: match_at_def)
next
  case (Cons y s)
  show ?case
  proof (cases "match_at (Lit (''error: '' @ x # w)) p (y # s)")
    case None
    with Cons.prems have "search_at (Lit (''error: '' @ x # w)) (Some y) s (Suc pos) \<noteq> None"
      by simp
    from Cons.IH [OF this Cons.prems(2)] show ?thesis
      by (cases "match_at error_pattern p (y # s)") auto
  next
    case (Some nc)
    then have "prefix (''error: '' @ x # w) (y # s)" by (rule match_at_Lit)
    then obtain t where "y # s = ''error: '' @ x # (w @ t)" by (auto simp: prefix_def)
    with error_pattern_at [OF Cons.prems(2), of p "w @ t"]
    have "match_at error_pattern p (y # s) \<noteq> None" by simp
    then show ?thesis by auto
  qed
qed

lemma verification_error_is_error:
  assumes "is_verification_error ln"
  shows "search error_pattern ln \<noteq> None"
proof -
  have nn: "not_newline CHR ''a''" "not_newline CHR ''p''" "not_newline CHR ''l''"
    by (simp_all add: not_newline_def newline_def)
  have step: "search error_pattern ln \<noteq> None"
    if "matches (Lit (''error: '' @ x # w)) ln" "not_newline x" for x w
    using that search_at_error_phrase [of x w None ln 0]
    by (simp add: matches_def search_def)
  from assms consider
      "matches (Lit (''error: '' @ CHR ''a'' # ''ssertion failed'')) ln"
    | "matches (Lit (''error: '' @ CHR ''p'' # ''ostcondition not satisfied'')) ln"
    | "matches (Lit (''error: '' @ CHR ''p'' # ''recondition not satisfied'')) ln"
    | "matches (Lit (''error: '' @ CHR ''l'' # ''oop invariant not preserved'')) ln"
    | "matches (Lit (''error: '' @ CHR ''l'' # ''oop invariant not satisfied on entry'')) ln"
    | "matches (Lit (''error: '' @ CHR ''a'' # ''ssertion not satisfied'')) ln"
    by (auto simp: is_verification_error_def verification_error_patterns_def)
  then show ?thesis using step nn by cases blast+
qed

text \<open>
  C5, as the code has it. A line counts as a verification failure when one of the six
  phrases stands directly behind the text \<open>error: \<close>. Such a line, when none of the
  rules before the generic error rule claims it (crate failure, memory allocation,
  command exit code, process exit), is skipped: the state of the parser is unchanged,
  so no compilation error is opened for it. A line that reaches the generic rule
  without such a phrase opens a compilation error with the message of the line.
\<close>

theorem parse_line_verification_error:
  assumes "search cargo_error_pattern (strip raw) = None"
    and "\<not> matches memory_error_pattern (strip raw)"
    and "search verus_command_exit_pattern (strip raw) = None"
    and "search process_error_pattern (strip raw) = None"
  shows "(is_verification_error (strip raw) \<longrightarrow> parse_line h st raw = st)
       \<and> (\<forall>b e c. \<not> is_verification_error (strip raw)
             \<and> \<not> matches verification_results_pattern (strip raw)
             \<and> search error_pattern (strip raw) = Some (b, e, c) \<longrightarrow>
             parse_line h st raw = open_error st (strip (group_text c 1)) (strip raw))"
proof -
  have "parse_line h st raw = st" if "is_verification_error (strip raw)"
    using assms that verification_error_is_error [OF that]
    by (auto simp: parse_line_def Let_def split: option.splits)
  moreover have "parse_line h st raw = open_error st (strip (group_text c 1)) (strip raw)"
    if "\<not> is_verification_error (strip raw)"
       "\<not> matches verification_results_pattern (strip raw)"
       "search error_pattern (strip raw) = Some (b, e, c)" for b e c
    using assms that by (simp add: parse_line_def Let_def)
  ultimately show ?thesis by blast
qed

theorem parse_line_verification_error_witness:
  "parse_line False initial ''  error: assertion failed'' = initial
   \<and> parse_line False initial ''error[E0308]: mismatched types''
       = open_error initial ''mismatched types'' ''error[E0308]: mismatched types''"
proof -
  have a: "search cargo_error_pattern (strip ''  error: assertion failed'') = None"
      "\<not> matches memory_error_pattern (strip ''  error: assertion failed'')"
      "search verus_command_exit_pattern (strip ''  error: assertion failed'') = None"
      "search process_error_pattern (strip ''  error: assertion failed'') = None"
      "is_verification_error (strip ''  error: assertion failed'')"
    by code_simp+
  have b: "search cargo_error_pattern (strip ''error[E0308]: mismatched types'') = None"
      "\<not> matches memory_error_pattern (strip ''error[E0308]: mismatched types'')"
      "search verus_command_exit_pattern (strip ''error[E0308]: mismatched types'') = None"
      "search process_error_pattern (strip ''error[E0308]: mismatched types'') = None"
      "\<not> is_verification_error (strip ''error[E0308]: mismatched types'')"
      "\<not> matches verification_results_pattern (strip ''error[E0308]: mismatched types'')"
      "search error_pattern (strip ''error[E0308]: mismatched types'')
         = Some (0, 30, [(1, ''mismatched types'')])"
      "strip (group_text [(1, ''mismatched types'')] 1) = ''mismatched types''"
      "strip ''error[E0308]: mismatched types'' = ''error[E0308]: mismatched types''"
    by code_simp+
  show ?thesis
    using parse_line_verification_error [OF a(1-4), of False initial]
      parse_line_verification_error [OF b(1-4), of False initial] a(5) b(5-9)
    by simp
qed

text \<open>
  The claim C5 as stated fails: with an error code between \<open>error\<close> and the colon, a
  line whose message is one of the phrases opens a compilation error.
\<close>

theorem parse_line_verification_error_counterexample:
  "parse_compilation_output ''error[E0001]: assertion failed''
     = ([new_diag ''assertion failed'' ''error[E0001]: assertion failed''], [])
   \<and> parse_compilation_output ''error: an assertion failed''
     = ([new_diag ''an assertion failed'' ''error: an assertion failed''], [])"
  by code_simp














section \<open>Order of the records of a block\<close>

lemma finditer_at_sorted:
  "sorted (map fst (finditer_at r p s pos skip))
   \<and> (\<forall>m \<in> set (finditer_at r p s pos skip). pos \<le> fst m)"
proof (induction s arbitrary: p pos skip)
  case Nil
  show ?case by simp
next
  case (Cons x s)
  show ?case
  proof (cases "0 < skip")
    case True
    then show ?thesis using Cons.IH [of "Some x" "Suc pos" "skip - 1"] by auto
  next
    case False
    show ?thesis
    proof (cases "match_at r p (x # s)")
      case None
      with False show ?thesis using Cons.IH [of "Some x" "Suc pos" 0] by auto
    next
      case (Some nc)
      obtain n c where nc: "nc = (n, c)" by (cases nc)
      with False Some show ?thesis using Cons.IH [of "Some x" "Suc pos" "n - 1"] by auto
    qed
  qed
qed

lemma count_nl_take_mono: "a \<le> b \<Longrightarrow> count_nl (take a s) \<le> count_nl (take b s)"
proof -
  assume "a \<le> b"
  then have "take b s = take a s @ take (b - a) (drop a s)"
    using take_add [of a "b - a" s] by simp
  then show ?thesis by (simp add: count_nl_def)
qed

lemma line_of_mono: "a \<le> b \<Longrightarrow> line_of s l a \<le> line_of s l b"
  using count_nl_take_mono [of a b s] by (simp add: line_of_def)

lemma sorted_line_of:
  "sorted (map fst ms) \<Longrightarrow> sorted (map (\<lambda>m. line_of s l (fst m)) ms)"
  by (induction ms) (auto simp: line_of_mono)

lemma general_functions_lines:
  "map snd (List.map_filter (general_function s l) ms)
     = map (\<lambda>m. line_of s l (fst m)) (filter (\<lambda>m. general_function s l m \<noteq> None) ms)"
  by (induction ms)
     (auto simp: List.map_filter_def general_function_def Let_def split: prod.splits if_splits)

lemma const_functions_lines:
  "map snd (const_functions s l) = map (\<lambda>m. line_of s l (fst m)) (finditer const_fn_pattern s)"
  by (simp add: const_functions_def case_prod_beta)

text \<open>
  C8, as the code has it. The result of \<open>extract_functions_from_block\<close> is two runs, one
  behind the other: the functions that the general pattern finds and keeps, then those
  that the pattern for \<open>const fn\<close> finds. Within each run the definition lines never
  decrease; the list as a whole need not be ordered.
\<close>

theorem extract_functions_two_sorted_runs:
  "extract_functions_from_block block_content block_start_line
     = general_functions (remove_comments block_content) block_start_line
       @ const_functions (remove_comments block_content) block_start_line
   \<and> sorted (map snd (general_functions content_no_comments block_start_line))
   \<and> sorted (map snd (const_functions content_no_comments block_start_line))"
proof -
  have s: "sorted (map fst (finditer r content_no_comments))" for r
    using finditer_at_sorted [of r None content_no_comments 0 0] by (simp add: finditer_def)
  have "sorted (map (\<lambda>m. line_of content_no_comments block_start_line (fst m))
                 (filter (\<lambda>m. general_function content_no_comments block_start_line m \<noteq> None)
                    (finditer all_fn_pattern content_no_comments)))"
    using sorted_line_of [OF s [of all_fn_pattern]] by (rule sorted_filter)
  then have "sorted (map snd (general_functions content_no_comments block_start_line))"
    by (simp add: general_functions_def general_functions_lines)
  moreover have "sorted (map snd (const_functions content_no_comments block_start_line))"
    using sorted_line_of [OF s [of const_fn_pattern]] by (simp add: const_functions_lines)
  ultimately show ?thesis by (simp add: extract_functions_from_block_def Let_def)
qed

text \<open>
  The claim C8 as stated fails: a \<open>const fn\<close> before another function is listed again
  at the end, with its smaller line.
\<close>

theorem analyze_file_order_counterexample:
  "analyze_file (''verus!{'' @ [newline] @ ''const fn a(){}'' @ [newline] @ ''fn b(){}''
                 @ [newline] @ ''}'')
     = [(''a'', 3), (''b'', 4), (''a'', 3)]
   \<and> \<not> sorted (map snd [(''a'', 3 :: int), (''b'', 4), (''a'', 3)])"
  by code_simp

section \<open>The two patterns of the function scanner on a const function\<close>
















































































end
